theory Spec2Isabelle
  imports Main "HOL-Library.Word"
begin

unbundle bit_operations_syntax

section \<open>Retarget IO (CAT3): stdio over one XMC UART channel\<close>

text \<open>
  The development embeds \<^verbatim>\<open>cy_retarget_io.c\<close>. The C file is one translation unit with
  module-level variables (the UART channel handle, the mutex flag, the previous output
  character) and three toolchain variants of the stdio hooks. The GCC/newlib hooks
  \<^verbatim>\<open>_write\<close> and \<^verbatim>\<open>_read\<close> and the IAR hooks \<^verbatim>\<open>__write\<close> and \<^verbatim>\<open>__read\<close> are embedded,
  together with initialisation, the busy query and deinitialisation.

  Everything the file calls but does not define (the XMC UART driver, the RTOS abstraction,
  \<^verbatim>\<open>CY_ASSERT\<close>, the status-flag masks, \<^verbatim>\<open>SystemCoreClock\<close>) is a parameter: constants
  and build switches live in the record \<open>build\<close>, the answers of the hardware are oracles
  in the state, and the return codes of the RTOS calls are passed to each operation.
\<close>

subsection \<open>Types\<close>

type_synonym byte = "8 word"       \<comment> \<open>\<^verbatim>\<open>char\<close>\<close>
type_synonym cy_rslt_t = "32 word" \<comment> \<open>\<^verbatim>\<open>uint32_t\<close> result code\<close>
type_synonym addr = nat            \<comment> \<open>an address; a pointer is \<open>addr option\<close>, \<open>None\<close> is \<^verbatim>\<open>NULL\<close>\<close>

text \<open>
  Build-time switches and the constants of headers that are not part of the repository.
  \<open>RTOS_AWARE\<close> selects the first branch of the \<^verbatim>\<open>#if\<close> at the top of the file (the
  real mutex); \<open>CONVERT_LF_TO_CRLF\<close> is \<^verbatim>\<open>CY_RETARGET_IO_CONVERT_LF_TO_CRLF\<close>;
  \<open>ASSERTS\<close> says whether \<^verbatim>\<open>CY_ASSERT\<close> checks its argument (debug build) or expands to
  nothing (release build).
\<close>

record build =
  RTOS_AWARE :: bool
  CONVERT_LF_TO_CRLF :: bool
  ASSERTS :: bool
  CY_RSLT_SUCCESS :: cy_rslt_t
  SystemCoreClock :: "32 word"
  FLAG_RECEIVE_INDICATION :: "32 word"
  FLAG_ALTERNATIVE_RECEIVE_INDICATION :: "32 word"
  FLAG_TRANSFER_STATUS_BUSY :: "32 word"
  LLIO_STDIN :: int
  LLIO_STDOUT :: int
  LLIO_ERROR :: "32 word"

datatype rtos_call = Init_mutex | Get_mutex | Set_mutex | Deinit_mutex

text \<open>
  The return codes the RTOS abstraction gives to the (at most one) call of each mutex
  primitive made by one operation of this module.
\<close>

record rtos_results =
  init_mutex_rslt :: cy_rslt_t
  get_mutex_rslt :: cy_rslt_t
  set_mutex_rslt :: cy_rslt_t
  deinit_mutex_rslt :: cy_rslt_t

text \<open>
  The state: the three module variables, the caller's memory, and the outside world.
  The hardware is an oracle: the \<open>k\<close>-th read of the status register returns \<open>psr k\<close>, the
  \<open>k\<close>-th read of the receive buffer returns \<open>rbuf k\<close>; the counters say how many reads
  have happened. \<open>transmitted\<close> lists the characters handed to \<^verbatim>\<open>XMC_UART_CH_Transmit\<close>,
  oldest first; \<open>rtos_calls\<close> lists the mutex primitives called; \<open>delay_steps\<close> counts
  the decrements of the volatile busy-wait counter.
\<close>

record state =
  channel :: "addr option"              \<comment> \<open>\<^verbatim>\<open>cy_retarget_io_uart_obj.channel\<close>\<close>
  mutex_initialized :: bool             \<comment> \<open>\<^verbatim>\<open>cy_retarget_io_mutex_initialized\<close>\<close>
  stdout_prev_char :: byte              \<comment> \<open>\<^verbatim>\<open>cy_retarget_io_stdout_prev_char\<close>\<close>
  mem :: "addr \<Rightarrow> byte"
  psr :: "nat \<Rightarrow> 32 word"
  polls :: nat
  rbuf :: "nat \<Rightarrow> 16 word"
  reads :: nat
  clears :: nat
  transmitted :: "byte list"
  rtos_calls :: "rtos_call list"
  delay_steps :: nat

datatype fatal = Assertion_failed | Aborted

abbreviation LF :: byte where "LF \<equiv> 10"
abbreviation CR :: byte where "CR \<equiv> 13"

subsection \<open>The mutex wrappers\<close>

text \<open>
  With \<open>RTOS_AWARE\<close> the wrappers call the RTOS; without it they are the empty inline
  functions of the \<^verbatim>\<open>#else\<close> branch. A failed \<^verbatim>\<open>CY_ASSERT\<close> halts, a failed RTOS call
  runs \<^verbatim>\<open>abort()\<close>: both end the program and are the \<open>Inl\<close> results.
\<close>

definition cy_retarget_io_mutex_init :: "build \<Rightarrow> rtos_results \<Rightarrow> state \<Rightarrow> cy_rslt_t \<times> state" where
  "cy_retarget_io_mutex_init b r s =
     (if RTOS_AWARE b then
        (if mutex_initialized s then (CY_RSLT_SUCCESS b, s)
         else
           (let rslt = init_mutex_rslt r;
                s1 = s\<lparr>rtos_calls := rtos_calls s @ [Init_mutex]\<rparr>
            in if CY_RSLT_SUCCESS b = rslt
               then (rslt, s1\<lparr>mutex_initialized := True\<rparr>)
               else (rslt, s1)))
      else (CY_RSLT_SUCCESS b, s))"

definition cy_retarget_io_mutex_acquire :: "build \<Rightarrow> rtos_results \<Rightarrow> state \<Rightarrow> fatal + state" where
  "cy_retarget_io_mutex_acquire b r s =
     (if RTOS_AWARE b then
        (if ASSERTS b \<and> \<not> mutex_initialized s then Inl Assertion_failed
         else
           (let rslt = get_mutex_rslt r;
                s1 = s\<lparr>rtos_calls := rtos_calls s @ [Get_mutex]\<rparr>
            in if rslt \<noteq> CY_RSLT_SUCCESS b then Inl Aborted else Inr s1))
      else Inr s)"

definition cy_retarget_io_mutex_release :: "build \<Rightarrow> rtos_results \<Rightarrow> state \<Rightarrow> fatal + state" where
  "cy_retarget_io_mutex_release b r s =
     (if RTOS_AWARE b then
        (if ASSERTS b \<and> \<not> mutex_initialized s then Inl Assertion_failed
         else
           (let rslt = set_mutex_rslt r;
                s1 = s\<lparr>rtos_calls := rtos_calls s @ [Set_mutex]\<rparr>
            in if rslt \<noteq> CY_RSLT_SUCCESS b then Inl Aborted else Inr s1))
      else Inr s)"

definition cy_retarget_io_mutex_deinit :: "build \<Rightarrow> rtos_results \<Rightarrow> state \<Rightarrow> fatal + state" where
  "cy_retarget_io_mutex_deinit b r s =
     (if RTOS_AWARE b then
        (if ASSERTS b \<and> \<not> mutex_initialized s then Inl Assertion_failed
         else
           (let rslt = deinit_mutex_rslt r;
                s1 = s\<lparr>rtos_calls := rtos_calls s @ [Deinit_mutex]\<rparr>
            in if rslt \<noteq> CY_RSLT_SUCCESS b then Inl Aborted else Inr s1))
      else Inr s)"

subsection \<open>The driver calls\<close>

definition XMC_UART_CH_GetStatusFlag :: "state \<Rightarrow> 32 word \<times> state" where
  "XMC_UART_CH_GetStatusFlag s = (psr s (polls s), s\<lparr>polls := Suc (polls s)\<rparr>)"

definition XMC_UART_CH_GetReceivedData :: "state \<Rightarrow> 16 word \<times> state" where
  "XMC_UART_CH_GetReceivedData s = (rbuf s (reads s), s\<lparr>reads := Suc (reads s)\<rparr>)"

definition XMC_UART_CH_ClearStatusFlag :: "state \<Rightarrow> state" where
  "XMC_UART_CH_ClearStatusFlag s = s\<lparr>clears := Suc (clears s)\<rparr>"

definition XMC_UART_CH_Transmit :: "byte \<Rightarrow> state \<Rightarrow> state" where
  "XMC_UART_CH_Transmit c s = s\<lparr>transmitted := transmitted s @ [c]\<rparr>"

subsection \<open>Character transport\<close>

text \<open>
  The receive primitive polls the status register until one of the two receive flags is
  set. The loop has no bound in the source, so it is a partial function: \<open>None\<close> is the
  run that polls forever.
\<close>

partial_function (option) wait_receive :: "build \<Rightarrow> state \<Rightarrow> state option" where
  "wait_receive b s =
     (if fst (XMC_UART_CH_GetStatusFlag s) AND
           (FLAG_RECEIVE_INDICATION b OR FLAG_ALTERNATIVE_RECEIVE_INDICATION b) = 0
      then wait_receive b (snd (XMC_UART_CH_GetStatusFlag s))
      else Some (snd (XMC_UART_CH_GetStatusFlag s)))"

definition cy_retarget_io_getchar :: "build \<Rightarrow> addr \<Rightarrow> state \<Rightarrow> (cy_rslt_t \<times> state) option" where
  "cy_retarget_io_getchar b c s =
     (case wait_receive b s of
        None \<Rightarrow> None
      | Some s1 \<Rightarrow>
          (let (d, s2) = XMC_UART_CH_GetReceivedData s1;
               s3 = s2\<lparr>mem := (mem s2)(c := ucast d)\<rparr>;
               s4 = XMC_UART_CH_ClearStatusFlag s3
           in Some (CY_RSLT_SUCCESS b, s4)))"

definition cy_retarget_io_putchar :: "build \<Rightarrow> byte \<Rightarrow> state \<Rightarrow> cy_rslt_t \<times> state" where
  "cy_retarget_io_putchar b c s = (CY_RSLT_SUCCESS b, XMC_UART_CH_Transmit c s)"

subsection \<open>The GCC hooks\<close>

text \<open>
  \<^verbatim>\<open>_write\<close>: the \<^verbatim>\<open>for\<close> loop, with the loop variables \<^verbatim>\<open>ptr\<close>, \<^verbatim>\<open>nChars\<close> and
  \<^verbatim>\<open>rslt\<close> as arguments. \<^verbatim>\<open>nChars\<close> and \<^verbatim>\<open>len\<close> are C \<^verbatim>\<open>int\<close>s; the counter is only
  incremented while it is below \<^verbatim>\<open>len\<close>, so it never wraps and \<open>int\<close> is exact.
\<close>

function write_loop :: "build \<Rightarrow> addr \<Rightarrow> int \<Rightarrow> int \<Rightarrow> cy_rslt_t \<Rightarrow> state \<Rightarrow> int \<times> state" where
  "write_loop b ptr len nChars rslt s =
     (if nChars < len then
        (let (rslt1, s1) =
               (if CONVERT_LF_TO_CRLF b \<and> mem s ptr = LF \<and> stdout_prev_char s \<noteq> CR
                then cy_retarget_io_putchar b CR s else (rslt, s));
             (rslt2, s2) =
               (if CY_RSLT_SUCCESS b = rslt1
                then cy_retarget_io_putchar b (mem s1 ptr) s1 else (rslt1, s1))
         in if CY_RSLT_SUCCESS b \<noteq> rslt2 then (nChars, s2)
            else write_loop b (Suc ptr) len (nChars + 1) rslt2
                   (if CONVERT_LF_TO_CRLF b then s2\<lparr>stdout_prev_char := mem s2 ptr\<rparr> else s2))
      else (nChars, s))"
  by pat_completeness auto
termination
  by (relation "measure (\<lambda>(b, ptr, len, nChars, rslt, s). nat (len - nChars))") auto

definition gcc_write :: "build \<Rightarrow> rtos_results \<Rightarrow> int \<Rightarrow> addr option \<Rightarrow> int \<Rightarrow> state \<Rightarrow> fatal + (int \<times> state)" where
  "gcc_write b r fd ptr len s =
     (case ptr of
        None \<Rightarrow> Inr (0, s)
      | Some p \<Rightarrow>
          (case cy_retarget_io_mutex_acquire b r s of
             Inl e \<Rightarrow> Inl e
           | Inr s1 \<Rightarrow>
               (let (nChars, s2) = write_loop b p len 0 (CY_RSLT_SUCCESS b) s1
                in case cy_retarget_io_mutex_release b r s2 of
                     Inl e \<Rightarrow> Inl e
                   | Inr s3 \<Rightarrow> Inr (nChars, s3))))"

text \<open>
  \<^verbatim>\<open>_read\<close>: the result is \<open>None\<close> when a receive never returns.
\<close>

function read_loop :: "build \<Rightarrow> addr \<Rightarrow> int \<Rightarrow> int \<Rightarrow> state \<Rightarrow> (int \<times> state) option" where
  "read_loop b ptr len nChars s =
     (if nChars < len then
        (case cy_retarget_io_getchar b ptr s of
           None \<Rightarrow> None
         | Some (rslt, s1) \<Rightarrow>
             if rslt = CY_RSLT_SUCCESS b then
               (if mem s1 ptr = LF \<or> mem s1 ptr = CR then Some (nChars + 1, s1)
                else read_loop b (Suc ptr) len (nChars + 1) s1)
             else Some (nChars, s1))
      else Some (nChars, s))"
  by pat_completeness auto
termination
  by (relation "measure (\<lambda>(b, ptr, len, nChars, s). nat (len - nChars))") auto

definition gcc_read :: "build \<Rightarrow> int \<Rightarrow> addr option \<Rightarrow> int \<Rightarrow> state \<Rightarrow> (int \<times> state) option" where
  "gcc_read b fd ptr len s =
     (case ptr of
        None \<Rightarrow> Some (0, s)
      | Some p \<Rightarrow> read_loop b p len 0 s)"

subsection \<open>The IAR hooks\<close>

text \<open>
  \<^verbatim>\<open>__write\<close> and \<^verbatim>\<open>__read\<close> count in \<^verbatim>\<open>size_t\<close>, 32 bits wide on these devices. IAR
  builds always take the \<^verbatim>\<open>#else\<close> branch of the mutex wrappers, and \<^verbatim>\<open>__write\<close> does
  not call them.
\<close>

function iar_write_loop :: "build \<Rightarrow> addr \<Rightarrow> 32 word \<Rightarrow> 32 word \<Rightarrow> cy_rslt_t \<Rightarrow> state \<Rightarrow> 32 word \<times> state" where
  "iar_write_loop b buffer sz nChars rslt s =
     (if nChars < sz then
        (let (rslt1, s1) =
               (if CONVERT_LF_TO_CRLF b \<and> mem s buffer = LF \<and> stdout_prev_char s \<noteq> CR
                then cy_retarget_io_putchar b CR s else (rslt, s));
             (rslt2, s2) =
               (if rslt1 = CY_RSLT_SUCCESS b
                then cy_retarget_io_putchar b (mem s1 buffer) s1 else (rslt1, s1))
         in if rslt2 \<noteq> CY_RSLT_SUCCESS b then (nChars, s2)
            else iar_write_loop b (Suc buffer) sz (nChars + 1) rslt2
                   (if CONVERT_LF_TO_CRLF b then s2\<lparr>stdout_prev_char := mem s2 buffer\<rparr> else s2))
      else (nChars, s))"
  by pat_completeness auto
termination
proof (relation "measure (\<lambda>(b, buffer, sz, nChars, rslt, s). unat sz - unat nChars)")
  fix b :: build and buffer :: addr and sz nChars rslt rslt2 :: "32 word" and s s2 :: state
  assume "nChars < sz"
  then have "unat sz - unat (nChars + 1) < unat sz - unat nChars"
    by unat_arith
  then show "((b, Suc buffer, sz, nChars + 1, rslt2,
           if CONVERT_LF_TO_CRLF b then s2\<lparr>stdout_prev_char := mem s2 buffer\<rparr> else s2),
          (b, buffer, sz, nChars, rslt, s))
         \<in> measure (\<lambda>(b, buffer, sz, nChars, rslt, s). unat sz - unat nChars)"
    by simp
qed simp

definition iar_write :: "build \<Rightarrow> int \<Rightarrow> addr option \<Rightarrow> 32 word \<Rightarrow> state \<Rightarrow> 32 word \<times> state" where
  "iar_write b handle buffer sz s =
     (if handle \<noteq> LLIO_STDOUT b then (LLIO_ERROR b, s)
      else
        (case buffer of
           None \<Rightarrow> (0, s)
         | Some p \<Rightarrow> iar_write_loop b p sz 0 (CY_RSLT_SUCCESS b) s))"

definition iar_read :: "build \<Rightarrow> int \<Rightarrow> addr option \<Rightarrow> 32 word \<Rightarrow> state \<Rightarrow> (32 word \<times> state) option" where
  "iar_read b handle buffer sz s =
     (if handle \<noteq> LLIO_STDIN b \<or> buffer = None then Some (LLIO_ERROR b, s)
      else
        (case buffer of
           None \<Rightarrow> Some (LLIO_ERROR b, s)
         | Some p \<Rightarrow>
             (case cy_retarget_io_getchar b p s of
                None \<Rightarrow> None
              | Some (rslt, s1) \<Rightarrow> Some (if CY_RSLT_SUCCESS b = rslt then 1 else 0, s1))))"

subsection \<open>Session lifecycle\<close>

definition cy_retarget_io_init :: "build \<Rightarrow> rtos_results \<Rightarrow> addr option \<Rightarrow> state \<Rightarrow> cy_rslt_t \<times> state" where
  "cy_retarget_io_init b r base s = cy_retarget_io_mutex_init b r (s\<lparr>channel := base\<rparr>)"

definition cy_retarget_io_is_tx_active :: "build \<Rightarrow> state \<Rightarrow> bool \<times> state" where
  "cy_retarget_io_is_tx_active b s =
     (let (flags, s1) = XMC_UART_CH_GetStatusFlag s
      in (flags AND FLAG_TRANSFER_STATUS_BUSY b > 0, s1))"

text \<open>
  The inner busy-wait \<^verbatim>\<open>while (--cycle_time_ms > 0) {}\<close> on the volatile 32-bit counter:
  decrement (with wrap-around), then test. Every decrement is counted in \<open>delay_steps\<close>.
\<close>

function delay_loop :: "32 word \<Rightarrow> state \<Rightarrow> 32 word \<times> state" where
  "delay_loop cycle_time_ms s =
     (let c1 = cycle_time_ms - 1;
          s1 = s\<lparr>delay_steps := Suc (delay_steps s)\<rparr>
      in if c1 > 0 then delay_loop c1 s1 else (c1, s1))"
  by pat_completeness auto
termination
proof (relation "measure (\<lambda>(c, s). if c = 0 then 2 ^ 32 else unat c)")
  fix cycle_time_ms c1 :: "32 word" and s s1 :: state
  assume c1: "c1 = cycle_time_ms - 1" and pos: "0 < c1"
  show "((c1, s1), (cycle_time_ms, s)) \<in> measure (\<lambda>(c, s). if c = 0 then 2 ^ 32 else unat c)"
  proof (cases "cycle_time_ms = 0")
    case True
    then have "unat c1 < 2 ^ 32" using unsigned_less [of c1] by simp
    with True pos show ?thesis by (simp add: word_greater_zero_iff)
  next
    case False
    then have "unat c1 < unat cycle_time_ms"
      by (simp add: c1 unat_minus_one unat_gt_0)
    with False pos show ?thesis by (simp add: word_greater_zero_iff)
  qed
qed simp

text \<open>
  The outer loop of \<^verbatim>\<open>cy_retarget_io_deinit\<close>. \<^verbatim>\<open>cycle_time_ms\<close> is declared and set
  before the loop, so it is a loop variable here, carried from one round to the next.
\<close>

function deinit_loop :: "build \<Rightarrow> int \<Rightarrow> 32 word \<Rightarrow> state \<Rightarrow> int \<times> 32 word \<times> state" where
  "deinit_loop b timeout_remaining_ms cycle_time_ms s =
     (if timeout_remaining_ms > 0 then
        (let (active, s1) = cy_retarget_io_is_tx_active b s
         in if \<not> active then (timeout_remaining_ms, cycle_time_ms, s1)
            else
              (let (c1, s2) = delay_loop cycle_time_ms s1
               in deinit_loop b (timeout_remaining_ms - 1) c1 s2))
      else (timeout_remaining_ms, cycle_time_ms, s))"
  by pat_completeness auto
termination
  by (relation "measure (\<lambda>(b, t, c, s). nat t)") auto

definition cy_retarget_io_deinit :: "build \<Rightarrow> rtos_results \<Rightarrow> state \<Rightarrow> fatal + state" where
  "cy_retarget_io_deinit b r s =
     (let (timeout_remaining_ms, cycle_time_ms, s1) =
            deinit_loop b 1000 (SystemCoreClock b div 1000) s
      in if ASSERTS b \<and> \<not> (timeout_remaining_ms \<noteq> 0) then Inl Assertion_failed
         else cy_retarget_io_mutex_deinit b r s1)"

subsection \<open>Vocabulary of the claims\<close>

text \<open>
  The bytes a buffer of \<open>n\<close> characters at address \<open>p\<close> holds, and the memory after
  storing a list of bytes from \<open>p\<close> upwards.
\<close>

definition buffer_bytes :: "(addr \<Rightarrow> byte) \<Rightarrow> addr \<Rightarrow> nat \<Rightarrow> byte list" where
  "buffer_bytes m p n = map m [p ..< p + n]"

fun store_bytes :: "(addr \<Rightarrow> byte) \<Rightarrow> addr \<Rightarrow> byte list \<Rightarrow> (addr \<Rightarrow> byte)" where
  "store_bytes m p [] = m"
| "store_bytes m p (c # cs) = store_bytes (m(p := c)) (Suc p) cs"

text \<open>
  The line-ending policy as the specification words it: for each byte, a carriage return
  first when the byte is a line feed and the byte before it was not a carriage return,
  then the byte itself, which becomes the new previous byte. \<open>written\<close> is what a build
  sends for a buffer: the translated bytes when the policy is compiled in, the bytes
  themselves otherwise.
\<close>

fun lf_to_crlf :: "byte \<Rightarrow> byte list \<Rightarrow> byte list" where
  "lf_to_crlf prev [] = []"
| "lf_to_crlf prev (c # cs) = (if c = LF \<and> prev \<noteq> CR then [CR, c] else [c]) @ lf_to_crlf c cs"

definition written :: "build \<Rightarrow> byte \<Rightarrow> byte list \<Rightarrow> byte list" where
  "written b prev cs = (if CONVERT_LF_TO_CRLF b then lf_to_crlf prev cs else cs)"

text \<open>
  The lock operations of a write succeed: nothing to do without the RTOS; with it, the
  assertion on the flag passes (or is compiled out) and both RTOS calls return success.
  Otherwise \<^verbatim>\<open>_write\<close> ends in \<^verbatim>\<open>CY_ASSERT\<close> or \<^verbatim>\<open>abort()\<close>.
\<close>

definition locks_succeed :: "build \<Rightarrow> rtos_results \<Rightarrow> state \<Rightarrow> bool" where
  "locks_succeed b r s \<longleftrightarrow>
     (RTOS_AWARE b \<longrightarrow>
        (ASSERTS b \<longrightarrow> mutex_initialized s) \<and>
        get_mutex_rslt r = CY_RSLT_SUCCESS b \<and>
        set_mutex_rslt r = CY_RSLT_SUCCESS b)"

text \<open>
  The receive side. \<open>receive_ready b s k\<close>: the \<open>k\<close>-th read of the status register
  shows a receive flag. \<open>data_keeps_arriving\<close>: whenever the program polls, a later poll
  shows one. \<open>take_line n f i\<close> is the specification's reading rule on the stream of
  received data words \<open>f\<close> from position \<open>i\<close>: at most \<open>n\<close> bytes, up to and including
  the first line feed or carriage return.
\<close>

definition receive_ready :: "build \<Rightarrow> state \<Rightarrow> nat \<Rightarrow> bool" where
  "receive_ready b s k \<longleftrightarrow>
     psr s k AND (FLAG_RECEIVE_INDICATION b OR FLAG_ALTERNATIVE_RECEIVE_INDICATION b) \<noteq> 0"

definition data_keeps_arriving :: "build \<Rightarrow> state \<Rightarrow> bool" where
  "data_keeps_arriving b s \<longleftrightarrow> (\<forall>j. \<exists>k\<ge>j. receive_ready b s k)"

text \<open>
  What a read of \<open>n\<close> bytes needs from the hardware, and no more: \<open>flags_from b f j n\<close>
  says that, polling from the \<open>j\<close>-th status read on, a receive flag shows \<open>n\<close> times,
  each time at a later poll than the one before. Nothing is asked of the polls after the
  last of them.
\<close>

fun flags_from :: "build \<Rightarrow> (nat \<Rightarrow> 32 word) \<Rightarrow> nat \<Rightarrow> nat \<Rightarrow> bool" where
  "flags_from b f j 0 = True"
| "flags_from b f j (Suc n) =
     (\<exists>k\<ge>j. f k AND (FLAG_RECEIVE_INDICATION b OR FLAG_ALTERNATIVE_RECEIVE_INDICATION b) \<noteq> 0 \<and>
        flags_from b f (Suc k) n)"

definition is_terminator :: "byte \<Rightarrow> bool" where
  "is_terminator c \<longleftrightarrow> c = LF \<or> c = CR"

fun take_line :: "nat \<Rightarrow> (nat \<Rightarrow> 16 word) \<Rightarrow> nat \<Rightarrow> byte list" where
  "take_line 0 f i = []"
| "take_line (Suc k) f i =
     (if is_terminator (ucast (f i)) then [ucast (f i)] else ucast (f i) # take_line k f (Suc i))"

text \<open>
  The number of decrements one run of the busy-wait makes from a counter value (a run
  entered at 0 wraps around first), and a transmitter that shows busy at every poll.
\<close>

definition delay_count :: "32 word \<Rightarrow> nat" where
  "delay_count c = (if c = 0 then 2 ^ 32 else unat c)"

definition tx_always_busy :: "build \<Rightarrow> state \<Rightarrow> bool" where
  "tx_always_busy b s \<longleftrightarrow> (\<forall>k. psr s k AND FLAG_TRANSFER_STATUS_BUSY b \<noteq> 0)"

subsection \<open>Concrete configurations and states\<close>

text \<open>
  Used to evaluate the theorems at concrete inputs. The flag masks are those of the
  XMC library (\<^verbatim>\<open>RIF\<close> bit 14, \<^verbatim>\<open>AIF\<close> bit 15, \<^verbatim>\<open>BUSY\<close> bit 9), the clock is 120 MHz,
  \<^verbatim>\<open>_LLIO_ERROR\<close> is \<^verbatim>\<open>(size_t)-1\<close>. \<open>power_on\<close> holds the static initialisers of the C
  file: no channel, the flag false, the previous character 0.
\<close>

definition xmc4_build :: build where
  "xmc4_build =
     \<lparr>RTOS_AWARE = True, CONVERT_LF_TO_CRLF = True, ASSERTS = True, CY_RSLT_SUCCESS = 0,
      SystemCoreClock = 120000000,
      FLAG_RECEIVE_INDICATION = 0x4000, FLAG_ALTERNATIVE_RECEIVE_INDICATION = 0x8000,
      FLAG_TRANSFER_STATUS_BUSY = 0x200,
      LLIO_STDIN = 0, LLIO_STDOUT = 1, LLIO_ERROR = 0xFFFFFFFF\<rparr>"

definition release_build :: build where
  "release_build = xmc4_build\<lparr>ASSERTS := False\<rparr>"

definition iar_build :: build where
  "iar_build = xmc4_build\<lparr>RTOS_AWARE := False\<rparr>"

definition rtos_ok :: rtos_results where
  "rtos_ok = \<lparr>init_mutex_rslt = 0, get_mutex_rslt = 0, set_mutex_rslt = 0, deinit_mutex_rslt = 0\<rparr>"

definition rtos_failing :: rtos_results where
  "rtos_failing = \<lparr>init_mutex_rslt = 0x4020100, get_mutex_rslt = 0x4020100,
                    set_mutex_rslt = 0x4020100, deinit_mutex_rslt = 0x4020100\<rparr>"

definition stream_of :: "'a::zero list \<Rightarrow> nat \<Rightarrow> 'a" where
  "stream_of xs k = (if k < length xs then xs ! k else 0)"

definition power_on :: "byte list \<Rightarrow> 32 word \<Rightarrow> 16 word list \<Rightarrow> state" where
  "power_on text status input =
     \<lparr>channel = None, mutex_initialized = False, stdout_prev_char = 0,
      mem = stream_of text, psr = (\<lambda>k. status), polls = 0,
      rbuf = stream_of input, reads = 0, clears = 0,
      transmitted = [], rtos_calls = [], delay_steps = 0\<rparr>"

definition hello_world :: "16 word list" where
  "hello_world = [104, 101, 108, 108, 111, 10, 119, 111, 114, 108, 100]"

definition six_flags :: state where
  "six_flags = (power_on [] 0 hello_world)\<lparr>psr := (\<lambda>k. if k < 6 then 0x4000 else 0)\<rparr>"

definition after_init :: "byte list \<Rightarrow> 32 word \<Rightarrow> 16 word list \<Rightarrow> state" where
  "after_init text status input =
     snd (cy_retarget_io_init xmc4_build rtos_ok (Some 0x48020000) (power_on text status input))"

definition after_deinit :: state where
  "after_deinit = (after_init [] 0 [])\<lparr>polls := 1, rtos_calls := [Init_mutex, Deinit_mutex]\<rparr>"

definition busy_state :: state where
  "busy_state = after_init [] 0x200 []"

section \<open>Properties of the embedding\<close>

subsection \<open>The write loop\<close>

declare write_loop.simps [simp del] iar_write_loop.simps [simp del]

lemma buffer_bytes_0 [simp]: "buffer_bytes m p 0 = []"
  by (simp add: buffer_bytes_def)

lemma buffer_bytes_Nil_iff [simp]: "buffer_bytes m p n = [] \<longleftrightarrow> n = 0"
  by (auto simp: buffer_bytes_def)

lemma buffer_bytes_Suc: "buffer_bytes m p (Suc n) = m p # buffer_bytes m (Suc p) n"
  by (simp add: buffer_bytes_def upt_rec)

lemma buffer_bytes_1: "buffer_bytes m p (Suc 0) = [m p]"
  by (simp add: buffer_bytes_Suc)

lemma buffer_bytes_2: "buffer_bytes m p 2 = [m p, m (Suc p)]"
  by (simp add: buffer_bytes_Suc numeral_2_eq_2)

lemma buffer_bytes_numeral:
  "buffer_bytes m p (numeral n) = m p # buffer_bytes m (Suc p) (pred_numeral n)"
  by (simp add: numeral_eq_Suc buffer_bytes_Suc)

lemma last_buffer_bytes: "0 < n \<Longrightarrow> last (buffer_bytes m p n) = m (p + n - 1)"
  by (cases n) (simp_all add: buffer_bytes_def)

lemma lf_to_crlf_Nil_iff [simp]: "lf_to_crlf prev cs = [] \<longleftrightarrow> cs = []"
  by (cases cs) auto

lemma last_lf_to_crlf: "cs \<noteq> [] \<Longrightarrow> last (lf_to_crlf prev cs) = last cs"
  by (induction cs arbitrary: prev) auto

lemma lf_to_crlf_no_LF: "LF \<notin> set cs \<Longrightarrow> lf_to_crlf prev cs = cs"
  by (induction cs arbitrary: prev) auto

lemma last_written: "cs \<noteq> [] \<Longrightarrow> last (written b prev cs) = last cs"
  by (simp add: written_def last_lf_to_crlf)

text \<open>
  The loop in closed form: started with a success code it runs to the end of the buffer,
  sends \<open>written\<close> of the remaining bytes and leaves the last of them in the
  previous-character variable.
\<close>

lemma write_loop_eq:
  "nat (len - n) = k \<Longrightarrow>
   write_loop b p len n (CY_RSLT_SUCCESS b) s =
     (max n len,
      s\<lparr>stdout_prev_char :=
           (if CONVERT_LF_TO_CRLF b \<and> k \<noteq> 0 then last (buffer_bytes (mem s) p k)
            else stdout_prev_char s),
        transmitted := transmitted s @
           (if CONVERT_LF_TO_CRLF b then lf_to_crlf (stdout_prev_char s) (buffer_bytes (mem s) p k)
            else buffer_bytes (mem s) p k)\<rparr>)"
proof (induction k arbitrary: p n s)
  case 0
  then show ?case by (simp add: write_loop.simps)
next
  case (Suc k)
  then have lt: "n < len" and k: "nat (len - (n + 1)) = k" by linarith+
  from lt have mx: "max (n + 1) len = len" "max n len = len" by simp_all
  show ?case
    by (subst write_loop.simps)
       (simp add: lt mx Suc.IH [OF k] cy_retarget_io_putchar_def XMC_UART_CH_Transmit_def
          buffer_bytes_Suc Let_def)
qed

text \<open>
  \<^verbatim>\<open>_write\<close> on a non-null buffer, in every build and for every answer of the RTOS.
\<close>

lemma gcc_write_eq:
  "gcc_write b r fd (Some p) len s =
     (if RTOS_AWARE b \<and> ASSERTS b \<and> \<not> mutex_initialized s then Inl Assertion_failed
      else if RTOS_AWARE b \<and>
              (get_mutex_rslt r \<noteq> CY_RSLT_SUCCESS b \<or> set_mutex_rslt r \<noteq> CY_RSLT_SUCCESS b)
      then Inl Aborted
      else Inr (max 0 len,
         s\<lparr>stdout_prev_char :=
              (if CONVERT_LF_TO_CRLF b \<and> nat len \<noteq> 0 then last (buffer_bytes (mem s) p (nat len))
               else stdout_prev_char s),
           transmitted := transmitted s @
              written b (stdout_prev_char s) (buffer_bytes (mem s) p (nat len)),
           rtos_calls := rtos_calls s @ (if RTOS_AWARE b then [Get_mutex, Set_mutex] else [])\<rparr>))"
  by (simp add: gcc_write_def cy_retarget_io_mutex_acquire_def cy_retarget_io_mutex_release_def
        write_loop_eq [where k = "nat len"] written_def Let_def)

lemma locks_succeed_upd [simp]:
  "locks_succeed b r (s\<lparr>mem := m\<rparr>) = locks_succeed b r s"
  "locks_succeed b r (s\<lparr>stdout_prev_char := c\<rparr>) = locks_succeed b r s"
  "locks_succeed b r (s\<lparr>transmitted := t\<rparr>) = locks_succeed b r s"
  "locks_succeed b r (s\<lparr>rtos_calls := l\<rparr>) = locks_succeed b r s"
  by (simp_all add: locks_succeed_def)

lemma gcc_write_ok:
  assumes "locks_succeed b r s"
  shows "gcc_write b r fd (Some p) len s =
     Inr (max 0 len,
         s\<lparr>stdout_prev_char :=
              (if CONVERT_LF_TO_CRLF b \<and> nat len \<noteq> 0 then last (buffer_bytes (mem s) p (nat len))
               else stdout_prev_char s),
           transmitted := transmitted s @
              written b (stdout_prev_char s) (buffer_bytes (mem s) p (nat len)),
           rtos_calls := rtos_calls s @ (if RTOS_AWARE b then [Get_mutex, Set_mutex] else [])\<rparr>)"
  using assms unfolding gcc_write_eq locks_succeed_def by auto

subsection \<open>Receiving\<close>

lemma wait_receive_hit:
  "receive_ready b s (polls s) \<Longrightarrow> wait_receive b s = Some (s\<lparr>polls := Suc (polls s)\<rparr>)"
  by (subst wait_receive.simps) (simp add: receive_ready_def XMC_UART_CH_GetStatusFlag_def)

lemma wait_receive_skip:
  "\<not> receive_ready b s (polls s) \<Longrightarrow> wait_receive b s = wait_receive b (s\<lparr>polls := Suc (polls s)\<rparr>)"
  by (subst wait_receive.simps) (simp add: receive_ready_def XMC_UART_CH_GetStatusFlag_def)

lemma receive_ready_polls [simp]: "receive_ready b (s\<lparr>polls := q\<rparr>) k = receive_ready b s k"
  by (simp add: receive_ready_def)

text \<open>
  When a flag shows at some poll from now on, the polling loop stops at the first such
  poll.
\<close>

lemma wait_receive_first:
  "receive_ready b s (polls s + d) \<Longrightarrow>
   \<exists>k. polls s \<le> k \<and> k \<le> polls s + d \<and> receive_ready b s k \<and>
       wait_receive b s = Some (s\<lparr>polls := Suc k\<rparr>)"
proof (induction d arbitrary: s)
  case 0
  then show ?case using wait_receive_hit [of b s] by auto
next
  case (Suc d)
  show ?case
  proof (cases "receive_ready b s (polls s)")
    case True
    then show ?thesis using wait_receive_hit [of b s] by auto
  next
    case False
    let ?s = "s\<lparr>polls := Suc (polls s)\<rparr>"
    from Suc.prems have "receive_ready b ?s (polls ?s + d)" by simp
    from Suc.IH [OF this] obtain k where "polls ?s \<le> k" "k \<le> polls ?s + d"
      "receive_ready b ?s k" "wait_receive b ?s = Some (?s\<lparr>polls := Suc k\<rparr>)" by blast
    with wait_receive_skip [OF False] show ?thesis
      by (intro exI [of _ k]) simp
  qed
qed

text \<open>
  The other half: a receive that returns has seen a flag, so without any flag the
  polling loop never returns.
\<close>

lemma wait_receive_SomeD:
  assumes "wait_receive b s = Some s'"
  shows "\<exists>k\<ge>polls s. receive_ready b s k"
proof (rule wait_receive.raw_induct
         [where P = "\<lambda>b s s'. \<exists>k\<ge>polls s. receive_ready b s k", OF _ assms])
  fix wr :: "build \<Rightarrow> state \<Rightarrow> state option" and b :: build and s y :: state
  assume IH: "\<And>b s y. wr b s = Some y \<Longrightarrow> \<exists>k\<ge>polls s. receive_ready b s k"
    and step: "(if fst (XMC_UART_CH_GetStatusFlag s) AND
         (FLAG_RECEIVE_INDICATION b OR FLAG_ALTERNATIVE_RECEIVE_INDICATION b) = 0
      then wr b (snd (XMC_UART_CH_GetStatusFlag s))
      else Some (snd (XMC_UART_CH_GetStatusFlag s))) = Some y"
  show "\<exists>k\<ge>polls s. receive_ready b s k"
  proof (cases "receive_ready b s (polls s)")
    case True
    then show ?thesis by auto
  next
    case False
    with step have "wr b (s\<lparr>polls := Suc (polls s)\<rparr>) = Some y"
      by (simp add: receive_ready_def XMC_UART_CH_GetStatusFlag_def)
    from IH [OF this] show ?thesis by (auto intro: Suc_leD)
  qed
qed

lemma wait_receive_never:
  "\<forall>k\<ge>polls s. \<not> receive_ready b s k \<Longrightarrow> wait_receive b s = None"
  using wait_receive_SomeD [of b s] by (cases "wait_receive b s") auto

lemma getchar_Some:
  "wait_receive b s = Some (s\<lparr>polls := q\<rparr>) \<Longrightarrow>
   cy_retarget_io_getchar b c s =
     Some (CY_RSLT_SUCCESS b,
           s\<lparr>mem := (mem s)(c := ucast (rbuf s (reads s))),
             polls := q, reads := Suc (reads s), clears := Suc (clears s)\<rparr>)"
  by (simp add: cy_retarget_io_getchar_def XMC_UART_CH_GetReceivedData_def
        XMC_UART_CH_ClearStatusFlag_def)

lemma getchar_None: "wait_receive b s = None \<Longrightarrow> cy_retarget_io_getchar b c s = None"
  by (simp add: cy_retarget_io_getchar_def)

lemma flags_from_mono: "flags_from b f j n \<Longrightarrow> j' \<le> j \<Longrightarrow> flags_from b f j' n"
  by (cases n) (auto intro: order_trans)

lemma flags_from_run:
  "(\<And>k. j \<le> k \<Longrightarrow> k < j + n \<Longrightarrow>
      f k AND (FLAG_RECEIVE_INDICATION b OR FLAG_ALTERNATIVE_RECEIVE_INDICATION b) \<noteq> 0) \<Longrightarrow>
   flags_from b f j n"
proof (induction n arbitrary: j)
  case 0
  show ?case by simp
next
  case (Suc n)
  have "flags_from b f (Suc j) n"
    by (rule Suc.IH) (simp add: Suc.prems)
  moreover have "f j AND (FLAG_RECEIVE_INDICATION b OR FLAG_ALTERNATIVE_RECEIVE_INDICATION b) \<noteq> 0"
    by (rule Suc.prems) simp_all
  ultimately show ?case by auto
qed

lemma data_keeps_arriving_flags:
  "data_keeps_arriving b s \<Longrightarrow> flags_from b (psr s) j n"
proof (induction n arbitrary: j)
  case 0
  show ?case by simp
next
  case (Suc n)
  from Suc.prems obtain k where "k \<ge> j" "receive_ready b s k"
    unfolding data_keeps_arriving_def by blast
  with Suc.IH [OF Suc.prems, of "Suc k"] show ?case
    by (auto simp: receive_ready_def)
qed

declare read_loop.simps [simp del]

lemma take_line_Nil_iff [simp]: "take_line k f i = [] \<longleftrightarrow> k = 0"
  by (cases k) auto

lemma take_line_numeral:
  "take_line (numeral n) f i =
     (if is_terminator (ucast (f i)) then [ucast (f i)]
      else ucast (f i) # take_line (pred_numeral n) f (Suc i))"
  by (simp add: numeral_eq_Suc)

lemma length_take_line: "length (take_line k f i) \<le> k"
  by (induction k arbitrary: i) auto

lemma take_line_prefix:
  "take_line k f i = map (\<lambda>j. ucast (f j)) [i ..< i + length (take_line k f i)]"
proof (induction k arbitrary: i)
  case 0
  show ?case by simp
next
  case (Suc k)
  let ?g = "\<lambda>j. ucast (f j) :: byte"
  show ?case
  proof (cases "is_terminator (ucast (f i))")
    case True
    then have "take_line (Suc k) f i = [?g i]" by simp
    then show ?thesis by simp
  next
    case False
    let ?L = "length (take_line k f (Suc i))"
    from False have tl: "take_line (Suc k) f i = ?g i # take_line k f (Suc i)" by simp
    have "i < i + Suc ?L" by simp
    then have "[i ..< i + Suc ?L] = i # [Suc i ..< i + Suc ?L]"
      by (rule upt_conv_Cons)
    then have "[i ..< i + Suc ?L] = i # [Suc i ..< Suc i + ?L]"
      by (simp only: add_Suc_right add_Suc)
    then have "map ?g [i ..< i + length (take_line (Suc k) f i)] = ?g i # map ?g [Suc i ..< Suc i + ?L]"
      unfolding tl by (simp only: list.map length_Cons)
    also have "map ?g [Suc i ..< Suc i + ?L] = take_line k f (Suc i)"
      by (rule Suc.IH [symmetric])
    finally show ?thesis unfolding tl by (rule sym)
  qed
qed

lemma take_line_butlast: "c \<in> set (butlast (take_line k f i)) \<Longrightarrow> \<not> is_terminator c"
  by (induction k arbitrary: i) (auto split: if_splits)

lemma take_line_stop:
  "length (take_line k f i) = k \<or>
   (take_line k f i \<noteq> [] \<and> is_terminator (last (take_line k f i)))"
  by (induction k arbitrary: i) auto

lemma take_line_full:
  "(\<And>j. j < k \<Longrightarrow> \<not> is_terminator (ucast (f (i + j)))) \<Longrightarrow> length (take_line k f i) = k"
proof (induction k arbitrary: i)
  case 0
  then show ?case by simp
next
  case (Suc k)
  have "\<not> is_terminator (ucast (f i))" using Suc.prems [of 0] by simp
  moreover have "length (take_line k f (Suc i)) = k"
  proof (rule Suc.IH)
    fix j assume "j < k"
    then show "\<not> is_terminator (ucast (f (Suc i + j)))" using Suc.prems [of "Suc j"] by simp
  qed
  ultimately show ?case by simp
qed

lemma take_line_first:
  "j < k \<Longrightarrow> (\<And>j'. j' < j \<Longrightarrow> \<not> is_terminator (ucast (f (i + j')))) \<Longrightarrow>
   is_terminator (ucast (f (i + j))) \<Longrightarrow> length (take_line k f i) = Suc j"
proof (induction k arbitrary: i j)
  case 0
  then show ?case by simp
next
  case (Suc k)
  show ?case
  proof (cases j)
    case 0
    with Suc.prems show ?thesis by simp
  next
    case (Suc j0)
    have nt: "\<not> is_terminator (ucast (f i))" using Suc.prems(2) [of 0] Suc by simp
    have "length (take_line k f (Suc i)) = Suc j0"
    proof (rule Suc.IH)
      show "j0 < k" using Suc.prems(1) Suc by simp
      show "is_terminator (ucast (f (Suc i + j0)))" using Suc.prems(3) Suc by simp
      fix j' assume "j' < j0"
      then show "\<not> is_terminator (ucast (f (Suc i + j')))"
        using Suc.prems(2) [of "Suc j'"] Suc by simp
    qed
    with nt Suc show ?thesis by simp
  qed
qed

lemma store_bytes_other: "a < p \<or> p + length cs \<le> a \<Longrightarrow> store_bytes m p cs a = m a"
  by (induction cs arbitrary: m p) auto

lemma buffer_bytes_store: "buffer_bytes (store_bytes m p cs) p (length cs) = cs"
proof (induction cs arbitrary: m p)
  case Nil
  then show ?case by simp
next
  case (Cons c cs)
  have "store_bytes (m(p := c)) (Suc p) cs p = c"
    by (simp add: store_bytes_other)
  then show ?case
    by (simp add: buffer_bytes_Suc Cons.IH)
qed

text \<open>
  The read loop in closed form, both ways: with a flag for each byte it is going to store
  it returns, having stored exactly the bytes of \<open>take_line\<close>; without, it never returns.
\<close>

lemma read_loop_flags:
  "nat (len - n) = k \<Longrightarrow>
   flags_from b (psr s) (polls s) (length (take_line k (rbuf s) (reads s))) \<Longrightarrow>
   \<exists>q\<ge>polls s + length (take_line k (rbuf s) (reads s)). read_loop b p len n s =
     Some (n + int (length (take_line k (rbuf s) (reads s))),
           s\<lparr>mem := store_bytes (mem s) p (take_line k (rbuf s) (reads s)),
             polls := q,
             reads := reads s + length (take_line k (rbuf s) (reads s)),
             clears := clears s + length (take_line k (rbuf s) (reads s))\<rparr>)"
proof (induction k arbitrary: p n s)
  case 0
  then show ?case by (intro exI [of _ "polls s"]) (simp add: read_loop.simps)
next
  case (Suc k)
  then have lt: "n < len" and k: "nat (len - (n + 1)) = k" by linarith+
  let ?c = "ucast (rbuf s (reads s)) :: byte"
  obtain m where len: "length (take_line (Suc k) (rbuf s) (reads s)) = Suc m"
    by (cases "length (take_line (Suc k) (rbuf s) (reads s))") (auto split: if_splits)
  from Suc.prems(2) [unfolded len] obtain k1 where k1: "polls s \<le> k1" "receive_ready b s k1"
    and rest: "flags_from b (psr s) (Suc k1) m"
    by (auto simp: receive_ready_def)
  from k1 have "receive_ready b s (polls s + (k1 - polls s))" by simp
  from wait_receive_first [OF this] obtain k0 where k0: "polls s \<le> k0" "k0 \<le> k1"
    and w: "wait_receive b s = Some (s\<lparr>polls := Suc k0\<rparr>)"
    using k1(1) by auto
  from rest k0(2) have rest0: "flags_from b (psr s) (Suc k0) m"
    by (auto intro: flags_from_mono)
  let ?s1 = "s\<lparr>mem := (mem s)(p := ?c),
                 polls := Suc k0, reads := Suc (reads s), clears := Suc (clears s)\<rparr>"
  note g = getchar_Some [OF w, of p]
  show ?case
  proof (cases "is_terminator ?c")
    case True
    then show ?thesis using lt g k0
      by (intro exI [of _ "Suc k0"]) (subst read_loop.simps, simp add: is_terminator_def)
  next
    case False
    with len have "m = length (take_line k (rbuf s) (Suc (reads s)))" by simp
    with rest0 have "flags_from b (psr ?s1) (polls ?s1)
                       (length (take_line k (rbuf ?s1) (reads ?s1)))" by simp
    from Suc.IH [OF k this, of "Suc p"] obtain q' where q': "q' \<ge> polls ?s1 + length (take_line k (rbuf ?s1) (reads ?s1))"
      and r: "read_loop b (Suc p) len (n + 1) ?s1 =
     Some (n + 1 + int (length (take_line k (rbuf ?s1) (reads ?s1))),
           ?s1\<lparr>mem := store_bytes (mem ?s1) (Suc p) (take_line k (rbuf ?s1) (reads ?s1)),
             polls := q',
             reads := reads ?s1 + length (take_line k (rbuf ?s1) (reads ?s1)),
             clears := clears ?s1 + length (take_line k (rbuf ?s1) (reads ?s1))\<rparr>)"
      by blast
    from q' k0 False have "q' \<ge> polls s + length (take_line (Suc k) (rbuf s) (reads s))" by simp
    then show ?thesis using lt g False r
      by (intro exI [of _ q']) (subst read_loop.simps, simp add: is_terminator_def)
  qed
qed

lemma read_loop_no_flags:
  "nat (len - n) = k \<Longrightarrow>
   \<not> flags_from b (psr s) (polls s) (length (take_line k (rbuf s) (reads s))) \<Longrightarrow>
   read_loop b p len n s = None"
proof (induction k arbitrary: p n s)
  case 0
  then show ?case by simp
next
  case (Suc k)
  then have lt: "n < len" and k: "nat (len - (n + 1)) = k" by linarith+
  let ?c = "ucast (rbuf s (reads s)) :: byte"
  obtain m where len: "length (take_line (Suc k) (rbuf s) (reads s)) = Suc m"
    by (cases "length (take_line (Suc k) (rbuf s) (reads s))") (auto split: if_splits)
  from Suc.prems(2) [unfolded len] have no: "\<And>j. polls s \<le> j \<Longrightarrow> receive_ready b s j \<Longrightarrow>
      \<not> flags_from b (psr s) (Suc j) m"
    by (auto simp: receive_ready_def)
  show ?case
  proof (cases "\<exists>j\<ge>polls s. receive_ready b s j")
    case False
    then have "wait_receive b s = None" by (intro wait_receive_never) blast
    then show ?thesis using lt
      by (subst read_loop.simps) (simp add: getchar_None)
  next
    case True
    then obtain k1 where k1: "polls s \<le> k1" "receive_ready b s k1" by blast
    then have "receive_ready b s (polls s + (k1 - polls s))" by simp
    from wait_receive_first [OF this] obtain k0 where k0: "polls s \<le> k0" "receive_ready b s k0"
      and w: "wait_receive b s = Some (s\<lparr>polls := Suc k0\<rparr>)"
      by auto
    from no [OF k0] have rest0: "\<not> flags_from b (psr s) (Suc k0) m" .
    then have nz: "m \<noteq> 0" by (cases m) auto
    have nt: "\<not> is_terminator ?c"
    proof
      assume "is_terminator ?c"
      with len have "m = 0" by simp
      with nz show False by simp
    qed
    let ?s1 = "s\<lparr>mem := (mem s)(p := ?c),
                 polls := Suc k0, reads := Suc (reads s), clears := Suc (clears s)\<rparr>"
    note g = getchar_Some [OF w, of p]
    from nt len have "m = length (take_line k (rbuf s) (Suc (reads s)))" by simp
    with rest0 have "\<not> flags_from b (psr ?s1) (polls ?s1)
                       (length (take_line k (rbuf ?s1) (reads ?s1)))" by simp
    from Suc.IH [OF k this, of "Suc p"] have "read_loop b (Suc p) len (n + 1) ?s1 = None" .
    then show ?thesis using lt g nt
      by (subst read_loop.simps) (simp add: is_terminator_def)
  qed
qed

subsection \<open>The drain wait\<close>

declare delay_loop.simps [simp del] deinit_loop.simps [simp del]

text \<open>
  One run of the busy-wait always ends with the counter at 0; it takes as many decrements
  as the counter held, and \<open>2 ^ 32\<close> when it is entered with the counter at 0.
\<close>

lemma delay_loop_eq:
  "delay_loop c s = (0, s\<lparr>delay_steps := delay_steps s + delay_count c\<rparr>)"
proof (induction c s rule: delay_loop.induct)
  case (1 c s)
  show ?case
  proof (cases "c - 1 = 0")
    case True
    then have "c = 1" by simp
    then show ?thesis by (subst delay_loop.simps) (simp add: delay_count_def)
  next
    case False
    then have pos: "0 < c - 1" by (simp add: word_greater_zero_iff)
    have cnt: "delay_count c = Suc (delay_count (c - 1))"
    proof (cases "c = 0")
      case True
      then show ?thesis by (simp add: delay_count_def unsigned_minus_1_eq_mask mask_eq_exp_minus_1)
    next
      case c: False
      then have "unat (c - 1) = unat c - 1" by (simp add: unat_minus_one)
      moreover from c have "0 < unat c" by (simp add: unat_gt_0)
      ultimately show ?thesis using False c by (simp add: delay_count_def)
    qed
    from "1.IH" [OF refl refl pos] pos cnt show ?thesis
      by (subst delay_loop.simps) (simp add: Let_def)
  qed
qed

lemma tx_always_busy_upd [simp]:
  "tx_always_busy b (s\<lparr>polls := q\<rparr>) = tx_always_busy b s"
  "tx_always_busy b (s\<lparr>delay_steps := d\<rparr>) = tx_always_busy b s"
  by (simp_all add: tx_always_busy_def)

lemma is_tx_active_busy:
  "tx_always_busy b s \<Longrightarrow> cy_retarget_io_is_tx_active b s = (True, s\<lparr>polls := Suc (polls s)\<rparr>)"
  by (simp add: cy_retarget_io_is_tx_active_def XMC_UART_CH_GetStatusFlag_def tx_always_busy_def
        word_greater_zero_iff)

text \<open>
  With the transmitter always busy the outer loop runs all its rounds. Only the first
  busy-wait starts from the value computed from the clock; every later one starts from
  the 0 the one before it left behind.
\<close>

lemma deinit_loop_busy:
  "tx_always_busy b s \<Longrightarrow> nat t = Suc k \<Longrightarrow>
   deinit_loop b t c s =
     (0, 0, s\<lparr>polls := polls s + Suc k,
              delay_steps := delay_steps s + delay_count c + k * 2 ^ 32\<rparr>)"
proof (induction k arbitrary: t c s)
  case 0
  then have t: "t = 1" by linarith
  show ?case using 0
    by (subst deinit_loop.simps)
       (simp add: t is_tx_active_busy delay_loop_eq deinit_loop.simps [of b 0])
next
  case (Suc k)
  then have t: "0 < t" "nat (t - 1) = Suc k" by linarith+
  let ?s = "s\<lparr>polls := Suc (polls s), delay_steps := delay_steps s + delay_count c\<rparr>"
  have "tx_always_busy b ?s" using Suc.prems(1) by simp
  from Suc.IH [OF this t(2), of 0] Suc.prems(1) t(1) show ?case
    by (subst deinit_loop.simps)
       (simp add: is_tx_active_busy delay_loop_eq delay_count_def)
qed

text \<open>
  In general the loop changes nothing but the two counters of the outside world.
\<close>

lemma deinit_loop_frame:
  "nat t = k \<Longrightarrow>
   \<exists>t' c' q d. deinit_loop b t c s = (t', c', s\<lparr>polls := q, delay_steps := d\<rparr>)"
proof (induction k arbitrary: t c s)
  case 0
  then have "deinit_loop b t c s = (t, c, s\<lparr>polls := polls s, delay_steps := delay_steps s\<rparr>)"
    by (simp add: deinit_loop.simps)
  then show ?case by blast
next
  case (Suc k)
  then have t: "0 < t" "nat (t - 1) = k" by linarith+
  show ?case
  proof (cases "fst (cy_retarget_io_is_tx_active b s)")
    case False
    then have "deinit_loop b t c s = (t, c, s\<lparr>polls := Suc (polls s), delay_steps := delay_steps s\<rparr>)"
      using t(1)
      by (subst deinit_loop.simps)
         (simp add: cy_retarget_io_is_tx_active_def XMC_UART_CH_GetStatusFlag_def)
    then show ?thesis by blast
  next
    case True
    let ?s = "s\<lparr>polls := Suc (polls s), delay_steps := delay_steps s + delay_count c\<rparr>"
    from Suc.IH [OF t(2), of 0 ?s] obtain t' c' q d where
      "deinit_loop b (t - 1) 0 ?s = (t', c', ?s\<lparr>polls := q, delay_steps := d\<rparr>)"
      by blast
    then have "deinit_loop b t c s = (t', c', s\<lparr>polls := q, delay_steps := d\<rparr>)"
      using True t(1)
      by (subst deinit_loop.simps)
         (simp add: cy_retarget_io_is_tx_active_def XMC_UART_CH_GetStatusFlag_def delay_loop_eq)
    then show ?thesis by blast
  qed
qed

lemma deinit_returns:
  assumes "cy_retarget_io_deinit b r s = Inr s'"
  shows "\<exists>q d. s' = s\<lparr>polls := q, delay_steps := d,
                       rtos_calls := rtos_calls s @ (if RTOS_AWARE b then [Deinit_mutex] else [])\<rparr>"
proof -
  from deinit_loop_frame [OF refl, of b 1000 "SystemCoreClock b div 1000" s]
  obtain t' c' q d where
    "deinit_loop b 1000 (SystemCoreClock b div 1000) s = (t', c', s\<lparr>polls := q, delay_steps := d\<rparr>)"
    by blast
  with assms show ?thesis
    by (auto simp: cy_retarget_io_deinit_def cy_retarget_io_mutex_deinit_def Let_def
          split: if_splits)
qed

subsection \<open>Initialisation\<close>

lemma init_eq:
  "cy_retarget_io_init b r base s =
     (if RTOS_AWARE b \<and> \<not> mutex_initialized s
      then (init_mutex_rslt r,
            s\<lparr>channel := base, rtos_calls := rtos_calls s @ [Init_mutex],
              mutex_initialized := (init_mutex_rslt r = CY_RSLT_SUCCESS b)\<rparr>)
      else (CY_RSLT_SUCCESS b, s\<lparr>channel := base\<rparr>))"
  by (auto simp: cy_retarget_io_init_def cy_retarget_io_mutex_init_def Let_def)

lemma after_init_eq:
  "after_init text status input =
     (power_on text status input)
       \<lparr>channel := Some 0x48020000, rtos_calls := [Init_mutex], mutex_initialized := True\<rparr>"
  by (simp add: after_init_def init_eq xmc4_build_def rtos_ok_def power_on_def)

lemmas example_defs =
  after_init_eq power_on_def xmc4_build_def rtos_ok_def stream_of_def locks_succeed_def
  buffer_bytes_numeral buffer_bytes_Suc

section \<open>The claims\<close>

subsection \<open>C1\<close>

text \<open>
  C1. With line-ending translation compiled in, \<^verbatim>\<open>_write\<close> sends for the buffer exactly
  what the policy prescribes byte by byte: a carriage return before a byte if and only if
  the byte is a line feed and the previous byte was not a carriage return, then the byte
  itself. A call that writes the single byte \<open>c\<close> sends \<open>CR, c\<close> in that case and \<open>c\<close>
  alone otherwise (so a lone line feed after anything but a carriage return becomes
  \<open>CR, LF\<close>), and a call that writes \<open>CR, LF\<close> sends \<open>CR, LF\<close> and nothing more. The
  write returns whenever its lock operations do.
\<close>

theorem lf_translation:
  assumes "CONVERT_LF_TO_CRLF b" and "locks_succeed b r s"
  shows "(\<exists>s'. gcc_write b r fd (Some p) len s = Inr (max 0 len, s') \<and>
            transmitted s' = transmitted s @
              lf_to_crlf (stdout_prev_char s) (buffer_bytes (mem s) p (nat len))) \<and>
         (\<exists>s'. gcc_write b r fd (Some p) 1 (s\<lparr>mem := (mem s)(p := c)\<rparr>) = Inr (1, s') \<and>
            transmitted s' = transmitted s @
              (if c = LF \<and> stdout_prev_char s \<noteq> CR then [CR, c] else [c])) \<and>
         (\<exists>s'. gcc_write b r fd (Some p) 2 (s\<lparr>mem := (mem s)(p := CR, Suc p := LF)\<rparr>) = Inr (2, s') \<and>
            transmitted s' = transmitted s @ [CR, LF])"
  using assms
  by (simp add: gcc_write_ok written_def buffer_bytes_1 buffer_bytes_2)

text \<open>
  The theorem at a concrete input: after initialisation, writing \<^verbatim>\<open>a\nb\<close> sends
  \<^verbatim>\<open>a\r\nb\<close>.
\<close>

theorem lf_translation_witness:
  "CONVERT_LF_TO_CRLF xmc4_build \<and>
   locks_succeed xmc4_build rtos_ok (after_init [97, 10, 98] 0 []) \<and>
   (\<exists>s'. gcc_write xmc4_build rtos_ok 1 (Some 0) 3 (after_init [97, 10, 98] 0 []) = Inr (3, s') \<and>
      transmitted s' = [97, 13, 10, 98])"
  using lf_translation [of xmc4_build rtos_ok "after_init [97, 10, 98] 0 []" 1 0 3 LF]
  by (simp add: example_defs)

subsection \<open>C2\<close>

text \<open>
  C2. The previous-character variable survives from one \<^verbatim>\<open>_write\<close> call to the next.
  After a call that wrote at least one byte it holds the byte sent last, which is the last
  byte of that call's buffer; and when the next call's buffer starts with a line feed, that
  call sends a carriage return first if and only if the byte sent last by the call before
  was not a carriage return.
\<close>

theorem prev_char_persists:
  assumes "CONVERT_LF_TO_CRLF b" and "locks_succeed b r1 s" and "locks_succeed b r2 s"
    and "0 < len1" and "0 < len2" and "mem s p2 = LF"
  shows "\<exists>s1 s2. gcc_write b r1 fd1 (Some p1) len1 s = Inr (len1, s1) \<and>
           gcc_write b r2 fd2 (Some p2) len2 s1 = Inr (len2, s2) \<and>
           stdout_prev_char s1 = last (transmitted s1) \<and>
           last (transmitted s1) = mem s (p1 + nat len1 - 1) \<and>
           stdout_prev_char s2 = last (transmitted s2) \<and>
           transmitted s2 = transmitted s1 @
             (if last (transmitted s1) = CR then [] else [CR]) @
             LF # lf_to_crlf LF (buffer_bytes (mem s) (Suc p2) (nat len2 - 1))"
proof -
  from \<open>0 < len2\<close> obtain k where k: "nat len2 = Suc k" by (cases "nat len2") auto
  from \<open>0 < len1\<close> have n1: "0 < nat len1" by simp
  show ?thesis
    using assms n1
    by (simp add: gcc_write_ok written_def last_lf_to_crlf last_buffer_bytes k buffer_bytes_Suc)
qed

text \<open>
  The theorem at a concrete input: the first call writes \<^verbatim>\<open>a\r\<close>, the second
  \<^verbatim>\<open>\nb\<close>; the second call sends no carriage return of its own.
\<close>

theorem prev_char_persists_witness:
  "CONVERT_LF_TO_CRLF xmc4_build \<and>
   locks_succeed xmc4_build rtos_ok (after_init [97, 13, 10, 98] 0 []) \<and>
   (0::int) < 2 \<and> mem (after_init [97, 13, 10, 98] 0 []) 2 = LF \<and>
   (\<exists>s1 s2.
      gcc_write xmc4_build rtos_ok 1 (Some 0) 2 (after_init [97, 13, 10, 98] 0 []) = Inr (2, s1) \<and>
      gcc_write xmc4_build rtos_ok 1 (Some 2) 2 s1 = Inr (2, s2) \<and>
      stdout_prev_char s1 = CR \<and> last (transmitted s1) = CR \<and>
      transmitted s2 = transmitted s1 @ [10, 98])"
  using prev_char_persists [of xmc4_build rtos_ok "after_init [97, 13, 10, 98] 0 []" rtos_ok 2 2 2 1 0 1]
  by (auto simp: example_defs)

subsection \<open>C3\<close>

text \<open>
  C3. \<^verbatim>\<open>_read\<close> on a non-null buffer reads the received bytes one at a time into the
  buffer, in order, and stops exactly when \<^verbatim>\<open>len\<close> bytes are stored or the byte just
  stored is a line feed or carriage return. With \<open>xs\<close> the bytes that rule selects from the
  input (a prefix of the input, none but the last a terminator, \<^verbatim>\<open>len\<close> of them or the
  last a terminator; \<^verbatim>\<open>len\<close> of them when there is no terminator among the first
  \<^verbatim>\<open>len\<close>, and \<open>j + 1\<close> when the first terminator is at position \<open>j\<close> below \<^verbatim>\<open>len\<close>):
  every call that returns has returned the length of \<open>xs\<close>, with \<open>xs\<close> in the buffer, the
  terminator included and counted, one data read per byte, memory outside the stored
  bytes unchanged and nothing transmitted. The call returns exactly when a receive flag
  shows once for each byte of \<open>xs\<close>; nothing is needed after the last byte, so an input
  that ends is covered, and so is one on which data keeps arriving.
\<close>

theorem read_until_terminator:
  "\<exists>xs. xs = take_line (nat len) (rbuf s) (reads s) \<and>
     xs = map (\<lambda>j. ucast (rbuf s j)) [reads s ..< reads s + length xs] \<and>
     length xs \<le> nat len \<and>
     (\<forall>c\<in>set (butlast xs). \<not> is_terminator c) \<and>
     (length xs = nat len \<or> (xs \<noteq> [] \<and> is_terminator (last xs))) \<and>
     ((\<forall>j<nat len. \<not> is_terminator (ucast (rbuf s (reads s + j)))) \<longrightarrow> length xs = nat len) \<and>
     (\<forall>j<nat len. (\<forall>i<j. \<not> is_terminator (ucast (rbuf s (reads s + i)))) \<and>
          is_terminator (ucast (rbuf s (reads s + j))) \<longrightarrow> length xs = Suc j) \<and>
     (flags_from b (psr s) (polls s) (length xs) \<longrightarrow>
        (\<exists>s'. gcc_read b fd (Some p) len s = Some (int (length xs), s'))) \<and>
     (data_keeps_arriving b s \<longrightarrow> flags_from b (psr s) (polls s) (length xs)) \<and>
     (\<forall>n s'. gcc_read b fd (Some p) len s = Some (n, s') \<longrightarrow>
        flags_from b (psr s) (polls s) (length xs) \<and>
        n = int (length xs) \<and>
        buffer_bytes (mem s') p (length xs) = xs \<and>
        (\<forall>a. a < p \<or> p + length xs \<le> a \<longrightarrow> mem s' a = mem s a) \<and>
        reads s' = reads s + length xs \<and>
        clears s' = clears s + length xs \<and>
        polls s + length xs \<le> polls s' \<and>
        transmitted s' = transmitted s)"
proof -
  let ?xs = "take_line (nat len) (rbuf s) (reads s)"
  let ?F = "flags_from b (psr s) (polls s) (length ?xs)"
  have 4: "?xs = map (\<lambda>j. ucast (rbuf s j)) [reads s ..< reads s + length ?xs]"
    by (rule take_line_prefix)
  have 5: "\<forall>c\<in>set (butlast ?xs). \<not> is_terminator c"
    using take_line_butlast by blast
  have 6: "(\<forall>j<nat len. \<not> is_terminator (ucast (rbuf s (reads s + j)))) \<longrightarrow> length ?xs = nat len"
    using take_line_full [of "nat len" "rbuf s" "reads s"] by blast
  have 7: "\<forall>j<nat len. (\<forall>i<j. \<not> is_terminator (ucast (rbuf s (reads s + i)))) \<and>
                is_terminator (ucast (rbuf s (reads s + j))) \<longrightarrow> length ?xs = Suc j"
    using take_line_first [of _ "nat len" "rbuf s" "reads s"] by blast
  have 8: "?F \<longrightarrow> (\<exists>s'. gcc_read b fd (Some p) len s = Some (int (length ?xs), s'))"
  proof
    assume ?F
    from read_loop_flags [OF _ this, of len 0 p] show
      "\<exists>s'. gcc_read b fd (Some p) len s = Some (int (length ?xs), s')"
      by (auto simp: gcc_read_def)
  qed
  have 9: "data_keeps_arriving b s \<longrightarrow> ?F"
    by (simp add: data_keeps_arriving_flags)
  have 10: "\<forall>n s'. gcc_read b fd (Some p) len s = Some (n, s') \<longrightarrow>
        ?F \<and> n = int (length ?xs) \<and>
        buffer_bytes (mem s') p (length ?xs) = ?xs \<and>
        (\<forall>a. a < p \<or> p + length ?xs \<le> a \<longrightarrow> mem s' a = mem s a) \<and>
        reads s' = reads s + length ?xs \<and>
        clears s' = clears s + length ?xs \<and>
        polls s + length ?xs \<le> polls s' \<and>
        transmitted s' = transmitted s"
  proof (intro allI impI)
    fix n s'
    assume ret: "gcc_read b fd (Some p) len s = Some (n, s')"
    have F: ?F
    proof (rule ccontr)
      assume "\<not> ?F"
      from read_loop_no_flags [OF _ this, of len 0 p] ret show False
        by (simp add: gcc_read_def)
    qed
    from read_loop_flags [OF _ F, of len 0 p] obtain q where q: "q \<ge> polls s + length ?xs" and
      r: "read_loop b p len 0 s =
          Some (0 + int (length ?xs),
                s\<lparr>mem := store_bytes (mem s) p ?xs, polls := q,
                  reads := reads s + length ?xs, clears := clears s + length ?xs\<rparr>)"
      by auto
    with ret have n: "n = int (length ?xs)"
      and s': "s' = s\<lparr>mem := store_bytes (mem s) p ?xs, polls := q,
                  reads := reads s + length ?xs, clears := clears s + length ?xs\<rparr>"
      by (simp_all add: gcc_read_def)
    show "?F \<and> n = int (length ?xs) \<and>
        buffer_bytes (mem s') p (length ?xs) = ?xs \<and>
        (\<forall>a. a < p \<or> p + length ?xs \<le> a \<longrightarrow> mem s' a = mem s a) \<and>
        reads s' = reads s + length ?xs \<and>
        clears s' = clears s + length ?xs \<and>
        polls s + length ?xs \<le> polls s' \<and>
        transmitted s' = transmitted s"
      using F n q unfolding s'
      by (simp add: buffer_bytes_store store_bytes_other)
  qed
  show ?thesis
    by (intro exI [of _ ?xs] conjI refl 4 5 6 7 8 9 10 length_take_line take_line_stop)
qed

text \<open>
  The theorem at the specification's example, on an input that ends: the receive flag
  shows at the first six polls and never again. Reading up to 10 bytes from
  \<^verbatim>\<open>hello\nworld\<close> returns 6 and leaves \<^verbatim>\<open>hello\n\<close> in the buffer.
\<close>

theorem read_until_terminator_witness:
  "\<not> data_keeps_arriving xmc4_build six_flags \<and>
   flags_from xmc4_build (psr six_flags) (polls six_flags) 6 \<and>
   (\<exists>s'. gcc_read xmc4_build 0 (Some 100) 10 six_flags = Some (6, s') \<and>
      buffer_bytes (mem s') 100 6 = [104, 101, 108, 108, 111, 10] \<and>
      reads s' = 6)"
proof -
  have nd: "\<not> data_keeps_arriving xmc4_build six_flags"
    unfolding data_keeps_arriving_def receive_ready_def
    by (auto simp: six_flags_def xmc4_build_def intro!: exI [of _ 6])
  have t: "take_line (nat 10) (rbuf six_flags) (reads six_flags) = [104, 101, 108, 108, 111, 10]"
    by (simp add: six_flags_def power_on_def stream_of_def hello_world_def take_line_numeral
          is_terminator_def)
  have f: "flags_from xmc4_build (psr six_flags) (polls six_flags) 6"
    by (rule flags_from_run) (simp add: six_flags_def power_on_def xmc4_build_def)
  from read_until_terminator [of 10 six_flags xmc4_build 0 100] obtain xs where
    xs: "xs = take_line (nat 10) (rbuf six_flags) (reads six_flags)" and
    a: "flags_from xmc4_build (psr six_flags) (polls six_flags) (length xs) \<longrightarrow>
          (\<exists>s'. gcc_read xmc4_build 0 (Some 100) 10 six_flags = Some (int (length xs), s'))" and
    b: "\<forall>n s'. gcc_read xmc4_build 0 (Some 100) 10 six_flags = Some (n, s') \<longrightarrow>
          buffer_bytes (mem s') 100 (length xs) = xs \<and> reads s' = reads six_flags + length xs"
    by blast
  from xs t have x: "xs = [104, 101, 108, 108, 111, 10]" by simp
  then have l: "length xs = 6" by simp
  from a f obtain s' where
    r: "gcc_read xmc4_build 0 (Some 100) 10 six_flags = Some (6, s')"
    unfolding l by auto
  from b r have bm: "buffer_bytes (mem s') 100 (length xs) = xs"
    and br: "reads s' = reads six_flags + length xs" by blast+
  from bm have m: "buffer_bytes (mem s') 100 6 = [104, 101, 108, 108, 111, 10]"
    unfolding l unfolding x .
  from br have n: "reads s' = 6"
    unfolding l by (simp add: six_flags_def power_on_def)
  from nd f r m n show ?thesis by blast
qed

subsection \<open>C4\<close>

text \<open>
  C4. The code departs from the claim. With the transmitter permanently busy,
  \<^verbatim>\<open>cy_retarget_io_deinit\<close> does give up after 1000 polls, but \<^verbatim>\<open>cycle_time_ms\<close> is set
  once, before the loop, and not again: the first busy-wait makes
  \<^verbatim>\<open>SystemCoreClock / 1000\<close> decrements and leaves the counter at 0, and each of the other
  999 starts from 0, wraps around and makes \<open>2 ^ 32\<close> decrements. At 120 MHz that is
  \<open>120000 + 999 * 2 ^ 32 = 4290672448704\<close> decrements, where 1000 waits of one
  millisecond would be \<open>1000 * 120000 = 120000000\<close>. A release build then destroys the
  mutex; a build with assertions stops at \<^verbatim>\<open>CY_ASSERT(timeout_remaining_ms != 0)\<close>.
\<close>

theorem deinit_wait_steps:
  "deinit_loop xmc4_build 1000 (SystemCoreClock xmc4_build div 1000) busy_state =
     (0, 0, busy_state\<lparr>polls := 1000, delay_steps := 120000 + 999 * 4294967296\<rparr>) \<and>
   cy_retarget_io_deinit release_build rtos_ok busy_state =
     Inr (busy_state\<lparr>polls := 1000, delay_steps := 4290672448704,
            rtos_calls := [Init_mutex, Deinit_mutex]\<rparr>) \<and>
   cy_retarget_io_deinit xmc4_build rtos_ok busy_state = Inl Assertion_failed \<and>
   1000 * unat (SystemCoreClock xmc4_build div 1000) = 120000000"
proof -
  have b: "tx_always_busy xmc4_build busy_state" "tx_always_busy release_build busy_state"
    by (simp_all add: tx_always_busy_def busy_state_def release_build_def example_defs)
  have c: "SystemCoreClock xmc4_build div 1000 = 120000" "SystemCoreClock release_build div 1000 = 120000"
    by (simp_all add: xmc4_build_def release_build_def)
  have d: "delay_count 120000 = 120000" by (simp add: delay_count_def)
  have p: "polls busy_state = 0" "delay_steps busy_state = 0"
    "rtos_calls busy_state = [Init_mutex]" "mutex_initialized busy_state"
    by (simp_all add: busy_state_def example_defs)
  have 1: "deinit_loop xmc4_build 1000 120000 busy_state =
     (0, 0, busy_state\<lparr>polls := 1000, delay_steps := 120000 + 999 * 4294967296\<rparr>)"
    using deinit_loop_busy [OF b(1), of 1000 999 120000] by (simp add: d p)
  have 2: "deinit_loop release_build 1000 120000 busy_state =
     (0, 0, busy_state\<lparr>polls := 1000, delay_steps := 120000 + 999 * 4294967296\<rparr>)"
    using deinit_loop_busy [OF b(2), of 1000 999 120000] by (simp add: d p)
  show ?thesis
    unfolding c cy_retarget_io_deinit_def 1 2
    by (simp add: cy_retarget_io_mutex_deinit_def p release_build_def xmc4_build_def rtos_ok_def)
qed

subsection \<open>C5\<close>

text \<open>
  C5, as amended. With a null buffer the GCC hooks \<^verbatim>\<open>_write\<close> and \<^verbatim>\<open>_read\<close> return 0
  for every length, and so does the IAR hook \<^verbatim>\<open>__write\<close> on the standard-output handle;
  the IAR hook \<^verbatim>\<open>__read\<close> returns \<^verbatim>\<open>_LLIO_ERROR\<close>. None of the four touches the
  peripheral, the lock or any other part of the state.
\<close>

theorem null_buffer:
  "gcc_write b r fd None n s = Inr (0, s) \<and>
   gcc_read b fd None n s = Some (0, s) \<and>
   iar_write b (LLIO_STDOUT b) None sz s = (0, s) \<and>
   iar_read b handle None sz s = Some (LLIO_ERROR b, s)"
  by (simp add: gcc_write_def gcc_read_def iar_write_def iar_read_def)

text \<open>
  The amended claim at concrete inputs, before any initialisation.
\<close>

theorem null_buffer_witness:
  "gcc_write xmc4_build rtos_ok 1 None 5 (power_on [] 0 []) = Inr (0, power_on [] 0 []) \<and>
   gcc_read xmc4_build 1 None 5 (power_on [] 0 []) = Some (0, power_on [] 0 []) \<and>
   iar_write iar_build 1 None 5 (power_on [] 0 []) = (0, power_on [] 0 []) \<and>
   iar_read iar_build 0 None 5 (power_on [] 0 []) = Some (0xFFFFFFFF, power_on [] 0 [])"
proof -
  have e: "LLIO_STDOUT iar_build = 1" "LLIO_ERROR iar_build = 0xFFFFFFFF"
    by (simp_all add: iar_build_def xmc4_build_def)
  from null_buffer [of xmc4_build rtos_ok 1 5 "power_on [] 0 []" 5 0]
    null_buffer [of iar_build rtos_ok 1 5 "power_on [] 0 []" 5 0]
  show ?thesis unfolding e by blast
qed

text \<open>
  The claim as stated fails for the IAR read hook: on the standard-input handle with a
  null buffer it returns the error value, not 0.
\<close>

theorem iar_read_null_counterexample:
  "iar_read iar_build (LLIO_STDIN iar_build) None 16 (power_on [] 0 []) =
     Some (LLIO_ERROR iar_build, power_on [] 0 []) \<and>
   LLIO_ERROR iar_build \<noteq> 0"
  by (simp add: iar_read_def iar_build_def xmc4_build_def)

subsection \<open>C6\<close>

text \<open>
  C6. For a byte sequence \<open>S\<close> without a line feed, held in the buffer, \<^verbatim>\<open>_write\<close> sends
  the same bytes in a build with line-ending translation and in a build without it: the
  transmitted output grows by exactly \<open>S\<close> in both.
\<close>

theorem no_lf_same_output:
  assumes "CONVERT_LF_TO_CRLF b1" and "\<not> CONVERT_LF_TO_CRLF b2"
    and "locks_succeed b1 r1 s" and "locks_succeed b2 r2 s"
    and "buffer_bytes (mem s) p (length S) = S" and "LF \<notin> set S"
  shows "\<exists>s1 s2. gcc_write b1 r1 fd (Some p) (int (length S)) s = Inr (int (length S), s1) \<and>
           gcc_write b2 r2 fd (Some p) (int (length S)) s = Inr (int (length S), s2) \<and>
           transmitted s1 = transmitted s @ S \<and> transmitted s2 = transmitted s @ S"
  using assms by (simp add: gcc_write_ok written_def lf_to_crlf_no_LF)

text \<open>
  The theorem at a concrete input: \<^verbatim>\<open>hi\r\<close> is sent unchanged by both builds.
\<close>

theorem no_lf_same_output_witness:
  "CONVERT_LF_TO_CRLF xmc4_build \<and> \<not> CONVERT_LF_TO_CRLF (xmc4_build\<lparr>CONVERT_LF_TO_CRLF := False\<rparr>) \<and>
   locks_succeed xmc4_build rtos_ok (after_init [104, 105, 13] 0 []) \<and>
   locks_succeed (xmc4_build\<lparr>CONVERT_LF_TO_CRLF := False\<rparr>) rtos_ok (after_init [104, 105, 13] 0 []) \<and>
   buffer_bytes (mem (after_init [104, 105, 13] 0 [])) 0 (length [104, 105, 13 :: byte]) = [104, 105, 13] \<and>
   LF \<notin> set [104, 105, 13] \<and>
   (\<exists>s1 s2.
      gcc_write xmc4_build rtos_ok 1 (Some 0) 3 (after_init [104, 105, 13] 0 []) = Inr (3, s1) \<and>
      gcc_write (xmc4_build\<lparr>CONVERT_LF_TO_CRLF := False\<rparr>) rtos_ok 1 (Some 0) 3
        (after_init [104, 105, 13] 0 []) = Inr (3, s2) \<and>
      transmitted s1 = [104, 105, 13] \<and> transmitted s2 = [104, 105, 13])"
  using no_lf_same_output [of xmc4_build "xmc4_build\<lparr>CONVERT_LF_TO_CRLF := False\<rparr>" rtos_ok
      "after_init [104, 105, 13] 0 []" rtos_ok 0 "[104, 105, 13]" 1]
  by (simp add: example_defs)

subsection \<open>C7\<close>

text \<open>
  C7. \<^verbatim>\<open>cy_retarget_io_init\<close> stores the handle. It calls the RTOS to create the mutex
  exactly when the build uses the RTOS and the flag is not yet set. On a state whose flag
  is set it returns success and changes nothing but the handle, so after a successful
  call a second call is a successful no-op. It returns a failure code only when the RTOS
  call was made and failed, and then the code is the RTOS's own and the flag stays
  unset.
\<close>

theorem init_lazy_mutex:
  "channel (snd (cy_retarget_io_init b r base s)) = base \<and>
   rtos_calls (snd (cy_retarget_io_init b r base s)) =
     rtos_calls s @ (if RTOS_AWARE b \<and> \<not> mutex_initialized s then [Init_mutex] else []) \<and>
   (mutex_initialized s \<longrightarrow>
      cy_retarget_io_init b r base s = (CY_RSLT_SUCCESS b, s\<lparr>channel := base\<rparr>)) \<and>
   (fst (cy_retarget_io_init b r base s) = CY_RSLT_SUCCESS b \<longrightarrow>
      cy_retarget_io_init b r' base (snd (cy_retarget_io_init b r base s)) =
        (CY_RSLT_SUCCESS b, snd (cy_retarget_io_init b r base s))) \<and>
   (fst (cy_retarget_io_init b r base s) \<noteq> CY_RSLT_SUCCESS b \<longrightarrow>
      RTOS_AWARE b \<and> \<not> mutex_initialized s \<and> init_mutex_rslt r \<noteq> CY_RSLT_SUCCESS b \<and>
      fst (cy_retarget_io_init b r base s) = init_mutex_rslt r \<and>
      \<not> mutex_initialized (snd (cy_retarget_io_init b r base s))) \<and>
   (RTOS_AWARE b \<and> \<not> mutex_initialized s \<longrightarrow>
      fst (cy_retarget_io_init b r base s) = init_mutex_rslt r \<and>
      mutex_initialized (snd (cy_retarget_io_init b r base s)) =
        (init_mutex_rslt r = CY_RSLT_SUCCESS b))"
  by (auto simp: init_eq)

text \<open>
  The theorem at concrete inputs: a second initialisation succeeds even when the RTOS
  would refuse, and a first initialisation that the RTOS refuses returns the RTOS's code.
\<close>

theorem init_lazy_mutex_witness:
  "mutex_initialized (after_init [] 0 []) \<and>
   cy_retarget_io_init xmc4_build rtos_failing (Some 0x48020200) (after_init [] 0 []) =
     (CY_RSLT_SUCCESS xmc4_build, (after_init [] 0 [])\<lparr>channel := Some 0x48020200\<rparr>) \<and>
   RTOS_AWARE xmc4_build \<and> \<not> mutex_initialized (power_on [] 0 []) \<and>
   fst (cy_retarget_io_init xmc4_build rtos_failing (Some 0x48020000) (power_on [] 0 [])) =
     init_mutex_rslt rtos_failing \<and>
   fst (cy_retarget_io_init xmc4_build rtos_failing (Some 0x48020000) (power_on [] 0 [])) \<noteq>
     CY_RSLT_SUCCESS xmc4_build \<and>
   \<not> mutex_initialized
       (snd (cy_retarget_io_init xmc4_build rtos_failing (Some 0x48020000) (power_on [] 0 [])))"
proof -
  have a: "mutex_initialized (after_init [] 0 [])"
    by (simp add: after_init_eq)
  have c: "RTOS_AWARE xmc4_build \<and> \<not> mutex_initialized (power_on [] 0 [])"
    by (simp add: xmc4_build_def power_on_def)
  have ne: "init_mutex_rslt rtos_failing \<noteq> CY_RSLT_SUCCESS xmc4_build"
    by (simp add: rtos_failing_def xmc4_build_def)
  from a init_lazy_mutex [of xmc4_build rtos_failing "Some 0x48020200" "after_init [] 0 []"]
  have 1: "cy_retarget_io_init xmc4_build rtos_failing (Some 0x48020200) (after_init [] 0 []) =
     (CY_RSLT_SUCCESS xmc4_build, (after_init [] 0 [])\<lparr>channel := Some 0x48020200\<rparr>)"
    by blast
  from c init_lazy_mutex [of xmc4_build rtos_failing "Some 0x48020000" "power_on [] 0 []"]
  have 2: "fst (cy_retarget_io_init xmc4_build rtos_failing (Some 0x48020000) (power_on [] 0 [])) =
             init_mutex_rslt rtos_failing"
    and 3: "mutex_initialized
              (snd (cy_retarget_io_init xmc4_build rtos_failing (Some 0x48020000) (power_on [] 0 []))) =
            (init_mutex_rslt rtos_failing = CY_RSLT_SUCCESS xmc4_build)"
    by blast+
  from a c ne 1 2 3 show ?thesis by simp
qed

subsection \<open>C9\<close>

text \<open>
  C9. \<^verbatim>\<open>cy_retarget_io_putchar\<close> returns success always, so the early exit of the write
  loop is never taken: for a non-null buffer and \<^verbatim>\<open>len\<close> not negative, \<^verbatim>\<open>_write\<close>
  returns \<^verbatim>\<open>len\<close> whenever it returns at all, and it returns exactly when its lock
  operations succeed (the only other outcomes are the fatal ones of the lock wrappers).
\<close>

theorem write_returns_len:
  assumes "0 \<le> len"
  shows "(locks_succeed b r s \<longrightarrow> (\<exists>s'. gcc_write b r fd (Some p) len s = Inr (len, s'))) \<and>
         (\<forall>n s'. gcc_write b r fd (Some p) len s = Inr (n, s') \<longrightarrow> n = len \<and> locks_succeed b r s) \<and>
         fst (cy_retarget_io_putchar b c s) = CY_RSLT_SUCCESS b"
  using assms
  by (auto simp: gcc_write_ok gcc_write_eq locks_succeed_def cy_retarget_io_putchar_def
        split: if_splits)

text \<open>
  The theorem at a concrete input: three bytes written, 3 returned.
\<close>

theorem write_returns_len_witness:
  "(0::int) \<le> 3 \<and> locks_succeed xmc4_build rtos_ok (after_init [97, 10, 98] 0 []) \<and>
   (\<exists>s'. gcc_write xmc4_build rtos_ok 1 (Some 0) 3 (after_init [97, 10, 98] 0 []) = Inr (3, s'))"
  using write_returns_len [of 3 xmc4_build rtos_ok "after_init [97, 10, 98] 0 []" 1 0 0]
  by (simp add: example_defs)

subsection \<open>C10\<close>

text \<open>
  C10. In a build with the RTOS, after a successful \<^verbatim>\<open>cy_retarget_io_init\<close> and a
  \<^verbatim>\<open>cy_retarget_io_deinit\<close> that returned, the flag is still set although the last mutex
  call was the one that destroyed it. A further initialisation therefore returns success
  without calling the RTOS, whatever the RTOS would answer, and the assertions in the
  acquire and release wrappers still pass.
\<close>

theorem flag_survives_deinit:
  assumes "RTOS_AWARE b"
    and "cy_retarget_io_init b r0 base s0 = (CY_RSLT_SUCCESS b, s1)"
    and "cy_retarget_io_deinit b r1 s1 = Inr s2"
  shows "mutex_initialized s2 \<and>
         rtos_calls s2 = rtos_calls s1 @ [Deinit_mutex] \<and>
         cy_retarget_io_init b r base' s2 = (CY_RSLT_SUCCESS b, s2\<lparr>channel := base'\<rparr>) \<and>
         rtos_calls (snd (cy_retarget_io_init b r base' s2)) = rtos_calls s2 \<and>
         cy_retarget_io_mutex_acquire b r s2 \<noteq> Inl Assertion_failed \<and>
         cy_retarget_io_mutex_release b r s2 \<noteq> Inl Assertion_failed"
proof -
  from assms(1,2) have i: "mutex_initialized s1"
    by (auto simp: init_eq split: if_splits)
  from deinit_returns [OF assms(3)] assms(1) obtain q d where
    s2: "s2 = s1\<lparr>polls := q, delay_steps := d, rtos_calls := rtos_calls s1 @ [Deinit_mutex]\<rparr>"
    by auto
  show ?thesis
    using i assms(1) unfolding s2
    by (simp add: init_eq cy_retarget_io_mutex_acquire_def cy_retarget_io_mutex_release_def Let_def)
qed

text \<open>
  The theorem at a concrete input: initialise, deinitialise with an idle transmitter,
  initialise again with an RTOS that would refuse; acquiring then reaches the RTOS call
  on the destroyed mutex.
\<close>

theorem flag_survives_deinit_witness:
  "RTOS_AWARE xmc4_build \<and>
   cy_retarget_io_init xmc4_build rtos_ok (Some 0x48020000) (power_on [] 0 []) =
     (CY_RSLT_SUCCESS xmc4_build, after_init [] 0 []) \<and>
   cy_retarget_io_deinit xmc4_build rtos_ok (after_init [] 0 []) = Inr after_deinit \<and>
   mutex_initialized after_deinit \<and>
   rtos_calls after_deinit = [Init_mutex, Deinit_mutex] \<and>
   cy_retarget_io_init xmc4_build rtos_failing (Some 0x48020000) after_deinit =
     (CY_RSLT_SUCCESS xmc4_build, after_deinit) \<and>
   cy_retarget_io_mutex_acquire xmc4_build rtos_failing after_deinit = Inl Aborted"
proof -
  have a: "RTOS_AWARE xmc4_build" by (simp add: xmc4_build_def)
  have i: "cy_retarget_io_init xmc4_build rtos_ok (Some 0x48020000) (power_on [] 0 []) =
             (CY_RSLT_SUCCESS xmc4_build, after_init [] 0 [])"
    by (simp add: init_eq after_init_def xmc4_build_def rtos_ok_def power_on_def)
  have d: "cy_retarget_io_deinit xmc4_build rtos_ok (after_init [] 0 []) = Inr after_deinit"
    by (simp add: cy_retarget_io_deinit_def deinit_loop.simps cy_retarget_io_is_tx_active_def
          XMC_UART_CH_GetStatusFlag_def cy_retarget_io_mutex_deinit_def after_deinit_def
          example_defs)
  have c: "channel after_deinit = Some 0x48020000"
    by (simp add: after_deinit_def after_init_eq)
  have g: "get_mutex_rslt rtos_failing \<noteq> CY_RSLT_SUCCESS xmc4_build"
    by (simp add: rtos_failing_def xmc4_build_def)
  from flag_survives_deinit [OF a i d, of rtos_failing "Some 0x48020000"]
  have m: "mutex_initialized after_deinit"
    and r: "rtos_calls after_deinit = rtos_calls (after_init [] 0 []) @ [Deinit_mutex]"
    and n: "cy_retarget_io_init xmc4_build rtos_failing (Some 0x48020000) after_deinit =
              (CY_RSLT_SUCCESS xmc4_build, after_deinit\<lparr>channel := Some 0x48020000\<rparr>)"
    and q: "cy_retarget_io_mutex_acquire xmc4_build rtos_failing after_deinit \<noteq> Inl Assertion_failed"
    by blast+
  from c have e: "after_deinit\<lparr>channel := Some 0x48020000\<rparr> = after_deinit" by simp
  from q g a have q': "cy_retarget_io_mutex_acquire xmc4_build rtos_failing after_deinit = Inl Aborted"
    by (simp add: cy_retarget_io_mutex_acquire_def Let_def split: if_splits)
  from r have r': "rtos_calls after_deinit = [Init_mutex, Deinit_mutex]"
    by (simp add: after_init_eq)
  from a i d m r' n q' show ?thesis unfolding e by simp
qed

end
